theory Spec2Isabelle
  imports Main
begin

section \<open>Strings as the program sees them\<close>

text \<open>
  The program is \<^verbatim>\<open>console-test.py\<close>. Python strings are sequences of code points;
  here a \<^typ>\<open>string\<close> is a list of \<^typ>\<open>char\<close>, read as the code points
  below 256. The string methods the program calls are written out on that range.
\<close>

definition newline :: char where
  "newline = CHR 0x0A"

definition dquote :: char where
  "dquote = CHR 0x22"

definition comma :: char where
  "comma = CHR 0x2C"

text \<open>
  \<^verbatim>\<open>str.isspace\<close> on one code point: tab, line feed, vertical tab, form feed, carriage
  return, the four separators 0x1C..0x1F, space, NEL (0x85) and the no-break space (0xA0).
\<close>

definition isspace :: "char \<Rightarrow> bool" where
  "isspace c = (c \<in> set [CHR 0x09, CHR 0x0A, CHR 0x0B, CHR 0x0C, CHR 0x0D,
                          CHR 0x1C, CHR 0x1D, CHR 0x1E, CHR 0x1F, CHR 0x20,
                          CHR 0x85, CHR 0xA0])"

text \<open>\<^verbatim>\<open>s.strip()\<close>: whitespace removed at both ends.\<close>

definition strip :: "string \<Rightarrow> string" where
  "strip s = rev (dropWhile isspace (rev (dropWhile isspace s)))"

text \<open>\<^verbatim>\<open>s.startswith(p)\<close>.\<close>

definition startswith :: "string \<Rightarrow> string \<Rightarrow> bool" where
  "startswith p s = (take (length p) s = p)"

text \<open>
  \<^verbatim>\<open>s.lower()\<close>: the letters A..Z and the capital letters 0xC0..0xDE (without the
  multiplication sign 0xD7) move up by 32; every other code point below 256 stays.
\<close>

definition lower_char :: "char \<Rightarrow> char" where
  "lower_char c =
     (let n = (of_char c :: nat)
      in if (65 \<le> n \<and> n \<le> 90) \<or> (192 \<le> n \<and> n \<le> 222 \<and> n \<noteq> 215)
         then char_of (n + 32) else c)"

definition lower :: "string \<Rightarrow> string" where
  "lower s = map lower_char s"

text \<open>
  \<^verbatim>\<open>s.split(',')[-1]\<close>: the last field of the split. The split of any string has at
  least one field, so the index never fails; without a comma the field is the whole string.
\<close>

fun split_on :: "char \<Rightarrow> string \<Rightarrow> string list" where
  "split_on d [] = [[]]"
| "split_on d (c # cs) =
     (if c = d then [] # split_on d cs
      else (case split_on d cs of
              [] \<Rightarrow> [[c]]
            | f # fs \<Rightarrow> (c # f) # fs))"

definition last_field :: "string \<Rightarrow> string" where
  "last_field s = last (split_on comma s)"

section \<open>The attribute patterns\<close>

text \<open>
  Each pattern of \<^verbatim>\<open>_parse_playlist\<close> is \<^verbatim>\<open>KEY="([^"]*)"\<close>. \<^verbatim>\<open>search\<close> tries
  every start position from the left; at a position where \<^verbatim>\<open>KEY="\<close> stands, the group
  takes the characters up to the next double quote, and the position fails when no double
  quote follows. \<open>quoted_value\<close> is the group and the closing quote, \<open>re_search\<close> the scan.
\<close>

definition quoted_value :: "string \<Rightarrow> string option" where
  "quoted_value s = (if dquote \<in> set s then Some (takeWhile (\<lambda>c. c \<noteq> dquote) s) else None)"

fun re_search :: "string \<Rightarrow> string \<Rightarrow> string option" where
  "re_search key [] = None"
| "re_search key (c # cs) =
     (if startswith key (c # cs)
      then (case quoted_value (drop (length key) (c # cs)) of
              Some v \<Rightarrow> Some v
            | None \<Rightarrow> re_search key cs)
      else re_search key cs)"

definition pat_name :: string where
  "pat_name = ''tvg-name='' @ [dquote]"

definition pat_group :: string where
  "pat_group = ''group-title='' @ [dquote]"

definition pat_logo :: string where
  "pat_logo = ''tvg-logo='' @ [dquote]"

definition pat_epg_id :: string where
  "pat_epg_id = ''tvg-id='' @ [dquote]"

definition pat_country :: string where
  "pat_country = ''tvg-country='' @ [dquote]"

definition pat_language :: string where
  "pat_language = ''tvg-language='' @ [dquote]"

section \<open>Channels and the parser\<close>

record IPTVChannel =
  name :: string
  group :: string
  url :: string
  logo :: "string option"
  epg_id :: "string option"
  country :: "string option"
  language :: "string option"
  category :: "string option"

text \<open>
  The body of the inner \<^verbatim>\<open>try\<close> of \<^verbatim>\<open>_parse_playlist\<close>: the channel built from the
  pending metadata line and the URL line. Nothing in it can raise (\<^verbatim>\<open>search\<close> returns a
  match or \<^verbatim>\<open>None\<close>, group 1 exists in every pattern, and the split has a last
  field), so the \<^verbatim>\<open>except\<close> branch of the source has no counterpart.
\<close>

definition make_channel :: "string \<Rightarrow> string \<Rightarrow> IPTVChannel" where
  "make_channel extinf_line line =
     \<lparr> name = (case re_search pat_name extinf_line of
                 Some v \<Rightarrow> v
               | None \<Rightarrow> strip (last_field extinf_line)),
       group = (case re_search pat_group extinf_line of
                  Some v \<Rightarrow> v
                | None \<Rightarrow> ''Ungrouped''),
       url = line,
       logo = re_search pat_logo extinf_line,
       epg_id = re_search pat_epg_id extinf_line,
       country = re_search pat_country extinf_line,
       language = re_search pat_language extinf_line,
       category = None \<rparr>"

text \<open>
  One turn of the \<^verbatim>\<open>for line in buffer\<close> loop. The state is the pending metadata line
  (\<^verbatim>\<open>extinf_line\<close>) and the channels appended so far. A pending line is never empty (it
  starts with \<^verbatim>\<open>#EXTINF:\<close>), so its truth value is that it is not \<^verbatim>\<open>None\<close>.
\<close>

type_synonym parse_state = "string option \<times> IPTVChannel list"

definition parse_line :: "parse_state \<Rightarrow> string \<Rightarrow> parse_state" where
  "parse_line st raw =
     (let line = strip raw in
      if line = [] then st
      else if startswith ''#EXTINF:'' line then (Some line, snd st)
      else (case fst st of
              Some extinf_line \<Rightarrow>
                if \<not> startswith ''#'' line
                then (None, snd st @ [make_channel extinf_line line])
                else st
            | None \<Rightarrow> st))"

definition parse_lines :: "string list \<Rightarrow> IPTVChannel list" where
  "parse_lines ls = snd (foldl parse_line (None, []) ls)"

text \<open>
  \<^verbatim>\<open>io.StringIO(content)\<close> read line by line: a line ends after each line feed and keeps
  it; what follows the last line feed is a line of its own when it is not empty.
\<close>

fun readlines_from :: "string \<Rightarrow> string \<Rightarrow> string list" where
  "readlines_from cur [] = (if cur = [] then [] else [cur])"
| "readlines_from cur (c # cs) =
     (if c = newline then (cur @ [c]) # readlines_from [] cs
      else readlines_from (cur @ [c]) cs)"

definition readlines :: "string \<Rightarrow> string list" where
  "readlines content = readlines_from [] content"

text \<open>
  \<^verbatim>\<open>_parse_playlist\<close>: the first line is read and dropped, the loop runs over the rest,
  from an empty channel list.
\<close>

definition parse_playlist :: "string \<Rightarrow> IPTVChannel list" where
  "parse_playlist content = parse_lines (tl (readlines content))"

section \<open>The browser state, search and fetch\<close>

record IPTVBrowser =
  playlist_url :: "string option"
  channels :: "IPTVChannel list"
  current_filter :: "string option"

text \<open>
  \<^verbatim>\<open>fuzz.partial_ratio\<close> belongs to the fuzzywuzzy library, not to this program: it is
  a parameter of the search, of type \<open>scorer\<close>. \<open>None\<close> is a call that raises, which the
  loop of \<^verbatim>\<open>search_channels\<close> catches, logs and skips.
\<close>

type_synonym scorer = "string \<Rightarrow> string \<Rightarrow> int option"

text \<open>The \<^verbatim>\<open>for channel in self.channels\<close> loop, with \<^verbatim>\<open>results\<close> as accumulator.\<close>

fun search_loop :: "scorer \<Rightarrow> string \<Rightarrow> IPTVChannel list \<Rightarrow> IPTVChannel list \<Rightarrow> IPTVChannel list" where
  "search_loop partial_ratio query [] results = results"
| "search_loop partial_ratio query (channel # rest) results =
     (case partial_ratio query (lower (name channel)) of
        Some ratio \<Rightarrow>
          if 80 < ratio then search_loop partial_ratio query rest (results @ [channel])
          else search_loop partial_ratio query rest results
      | None \<Rightarrow> search_loop partial_ratio query rest results)"

definition search_channels :: "scorer \<Rightarrow> IPTVBrowser \<Rightarrow> string \<Rightarrow> IPTVChannel list" where
  "search_channels partial_ratio self query0 =
     (let query = lower (strip query0) in
      if query = [] then []
      else search_loop partial_ratio query (channels self) [])"

text \<open>
  The errors \<^verbatim>\<open>fetch_playlist\<close> raises, with their messages. \<open>RequestException\<close> stands
  for every exception of the HTTP library (connection failure, timeout, status not 2xx).
\<close>

datatype error =
    URLValidationError string
  | RequestException
  | PlaylistParsingError string

text \<open>
  \<^verbatim>\<open>urlparse\<close> and \<^verbatim>\<open>requests.get\<close> are library calls and parameters here:
  \<open>urlparse\<close> gives the scheme and the network location, or \<open>None\<close> where it raises;
  \<open>http_get\<close> gives the text of a successful response, or \<open>None\<close> for a
  \<open>RequestException\<close>.
\<close>

definition validate_url :: "(string \<Rightarrow> (string \<times> string) option) \<Rightarrow> string \<Rightarrow> bool" where
  "validate_url urlparse u =
     (case urlparse u of
        None \<Rightarrow> False
      | Some (scheme, netloc) \<Rightarrow> scheme \<noteq> [] \<and> netloc \<noteq> [])"

text \<open>
  \<^verbatim>\<open>fetch_playlist\<close>. An exception leaves the object as it is at the raise, so the
  result is the outcome (the error raised or the value returned) together with the state.
  \<^verbatim>\<open>self.playlist_url\<close> is assigned before the request, \<^verbatim>\<open>self.channels\<close> only inside
  \<^verbatim>\<open>_parse_playlist\<close>.
\<close>

definition fetch_playlist ::
  "(string \<Rightarrow> (string \<times> string) option) \<Rightarrow> (string \<Rightarrow> string option) \<Rightarrow>
   IPTVBrowser \<Rightarrow> string \<Rightarrow> (error + bool) \<times> IPTVBrowser" where
  "fetch_playlist urlparse http_get self u =
     (if \<not> validate_url urlparse u
      then (Inl (URLValidationError ''Invalid URL format''), self)
      else
        (let self1 = self\<lparr>playlist_url := Some u\<rparr> in
         case http_get u of
           None \<Rightarrow> (Inl RequestException, self1)
         | Some content \<Rightarrow>
             if \<not> startswith ''#EXTM3U'' (strip content)
             then (Inl (PlaylistParsingError ''Invalid M3U format: Missing #EXTM3U header''),
                   self1)
             else (Inr True, self1\<lparr>channels := parse_playlist content\<rparr>)))"

section \<open>The screens of the shell\<close>

text \<open>
  \<^verbatim>\<open>int(choice)\<close>: surrounding whitespace is dropped, one sign is allowed, and the rest
  is decimal digits with single underscores between digits. \<open>None\<close> is \<open>ValueError\<close>.
  The whitespace \<^verbatim>\<open>int\<close> drops is narrower than that of \<^verbatim>\<open>strip\<close>: tab to carriage
  return, space, NEL and the no-break space, but not the separators 0x1C..0x1F, which
  make the text invalid.
\<close>

definition int_space :: "char \<Rightarrow> bool" where
  "int_space c = (c \<in> set [CHR 0x09, CHR 0x0A, CHR 0x0B, CHR 0x0C, CHR 0x0D, CHR 0x20,
                            CHR 0x85, CHR 0xA0])"

definition int_strip :: "string \<Rightarrow> string" where
  "int_strip s = rev (dropWhile int_space (rev (dropWhile int_space s)))"

definition is_digit :: "char \<Rightarrow> bool" where
  "is_digit c = (c \<in> set ''0123456789'')"

definition digit_val :: "char \<Rightarrow> nat" where
  "digit_val c = of_char c - 48"

fun parse_digits :: "nat \<Rightarrow> bool \<Rightarrow> string \<Rightarrow> nat option" where
  "parse_digits acc after_digit [] = (if after_digit then Some acc else None)"
| "parse_digits acc after_digit (c # cs) =
     (if is_digit c then parse_digits (10 * acc + digit_val c) True cs
      else if c = CHR ''_'' \<and> after_digit then parse_digits acc False cs
      else None)"

definition py_int :: "string \<Rightarrow> int option" where
  "py_int s =
     (case int_strip s of
        [] \<Rightarrow> None
      | c # cs \<Rightarrow>
          if c = CHR ''-'' then map_option (\<lambda>n. - int n) (parse_digits 0 False cs)
          else if c = CHR ''+'' then map_option int (parse_digits 0 False cs)
          else map_option int (parse_digits 0 False (c # cs)))"

text \<open>
  \<^verbatim>\<open>xs[i]\<close> on a list: a negative index counts from the end, and an index outside
  \<open>-len..len-1\<close> is \<open>IndexError\<close> (\<open>None\<close>).
\<close>

definition py_index :: "'a list \<Rightarrow> int \<Rightarrow> 'a option" where
  "py_index xs i =
     (if 0 \<le> i \<and> i < int (length xs) then Some (xs ! nat i)
      else if i < 0 \<and> - int (length xs) \<le> i then Some (xs ! nat (int (length xs) + i))
      else None)"

text \<open>
  \<^verbatim>\<open>group_channels\<close>: a dictionary from group name to channels, in the order in which
  the groups first occur, so an association list.
\<close>

fun add_to_group :: "(string \<times> IPTVChannel list) list \<Rightarrow> string \<Rightarrow> IPTVChannel \<Rightarrow>
    (string \<times> IPTVChannel list) list" where
  "add_to_group [] k c = [(k, [c])]"
| "add_to_group ((k', v) # gs) k c =
     (if k' = k then (k', v @ [c]) # gs else (k', v) # add_to_group gs k c)"

definition group_channels :: "IPTVBrowser \<Rightarrow> (string \<times> IPTVChannel list) list" where
  "group_channels self =
     foldl (\<lambda>groups channel.
              add_to_group groups (if group channel = [] then ''Ungrouped'' else group channel)
                channel)
       [] (channels self)"

text \<open>
  One turn of a screen's \<^verbatim>\<open>while True\<close> loop, from the answer to the prompt: the
  screen is left (\<open>Back\<close>), a channel is played or a group entered (and the screen shown
  again afterwards), or a message is printed and the screen shown again.
\<close>

datatype turn =
    Back
  | Play IPTVChannel
  | Enter string "IPTVChannel list"
  | Report string
  | Abort string

definition browse_channels_turn :: "IPTVChannel list \<Rightarrow> string \<Rightarrow> turn" where
  "browse_channels_turn chans choice =
     (if lower choice = ''b'' then Back
      else (case py_int choice of
              None \<Rightarrow> Report ''Invalid input''
            | Some n \<Rightarrow>
                (let idx = n - 1 in
                 if 0 \<le> idx \<and> idx < int (length chans) then Play (chans ! nat idx)
                 else Report ''Invalid channel number'')))"

text \<open>
  In \<^verbatim>\<open>browse_groups\<close> the index goes to \<^verbatim>\<open>list(groups.keys())[idx]\<close> with no range
  test; \<open>IndexError\<close> and \<open>ValueError\<close> give the message. A key missing from the
  dictionary would be a \<open>KeyError\<close> for the outer handler, which leaves the screen.
\<close>

definition browse_groups_turn :: "(string \<times> IPTVChannel list) list \<Rightarrow> string \<Rightarrow> turn" where
  "browse_groups_turn groups choice =
     (if lower choice = ''b'' then Back
      else (case py_int choice of
              None \<Rightarrow> Report ''Invalid group number''
            | Some n \<Rightarrow>
                (let idx = n - 1 in
                 case py_index (map fst groups) idx of
                   None \<Rightarrow> Report ''Invalid group number''
                 | Some group_name \<Rightarrow>
                     (case map_of groups group_name of
                        Some chans \<Rightarrow> Enter group_name chans
                      | None \<Rightarrow> Abort ''An error occurred while browsing groups''))))"

section \<open>Notions the statements use\<close>

text \<open>
  A metadata line has the attribute \<open>KEY="..."\<close> when \<open>KEY="\<close> stands somewhere in it
  with a closing double quote further right. \<open>key\<close> is the attribute name with \<open>="\<close>.
\<close>

fun has_attribute :: "string \<Rightarrow> string \<Rightarrow> bool" where
  "has_attribute key [] = False"
| "has_attribute key (c # cs) =
     ((startswith key (c # cs) \<and> dquote \<in> set (drop (length key) (c # cs))) \<or>
      has_attribute key cs)"

text \<open>
  The leftmost \<open>KEY="\<close> of the line is followed at once by the closing quote: the
  attribute is there and its first value is empty.
\<close>

fun leftmost_empty :: "string \<Rightarrow> string \<Rightarrow> bool" where
  "leftmost_empty key [] = False"
| "leftmost_empty key (c # cs) =
     (if startswith key (c # cs) then startswith (key @ [dquote]) (c # cs)
      else leftmost_empty key cs)"

text \<open>The three kinds of line the loop tells apart, on the raw line as read.\<close>

definition is_extinf :: "string \<Rightarrow> bool" where
  "is_extinf raw = startswith ''#EXTINF:'' (strip raw)"

definition is_url_line :: "string \<Rightarrow> bool" where
  "is_url_line raw = (strip raw \<noteq> [] \<and> \<not> startswith ''#'' (strip raw))"

definition is_skipped :: "string \<Rightarrow> bool" where
  "is_skipped raw =
     (strip raw = [] \<or> (startswith ''#'' (strip raw) \<and> \<not> startswith ''#EXTINF:'' (strip raw)))"

text \<open>
  A well-formed pair is a metadata line and a URL line, each on one line. The playlist
  text of a list of pairs is the header and then every line after a line feed.
\<close>

definition well_formed_pair :: "string \<times> string \<Rightarrow> bool" where
  "well_formed_pair p =
     (newline \<notin> set (fst p) \<and> newline \<notin> set (snd p) \<and> is_extinf (fst p) \<and> is_url_line (snd p))"

definition playlist_text :: "(string \<times> string) list \<Rightarrow> string" where
  "playlist_text pairs =
     ''#EXTM3U'' @ concat (map (\<lambda>p. newline # fst p @ newline # snd p) pairs)"

definition channel_of_pair :: "string \<times> string \<Rightarrow> IPTVChannel" where
  "channel_of_pair p = make_channel (strip (fst p)) (strip (snd p))"

text \<open>The test of the search loop on one channel; a call that raises does not pass.\<close>

definition passes :: "scorer \<Rightarrow> string \<Rightarrow> IPTVChannel \<Rightarrow> bool" where
  "passes partial_ratio query channel =
     (case partial_ratio query (lower (name channel)) of
        Some ratio \<Rightarrow> 80 < ratio
      | None \<Rightarrow> False)"

section \<open>Sample inputs\<close>

text \<open>
  A scorer to run the search on: 100 on equal strings, as the library answers before any
  comparison, and 0 otherwise.
\<close>

definition equal_scorer :: scorer where
  "equal_scorer s1 s2 = Some (if s1 = s2 then 100 else 0)"

text \<open>The example playlist of the specification, and its two pairs without the orphan.\<close>

definition news_extinf :: string where
  "news_extinf = ''#EXTINF:-1 tvg-name='' @ [dquote] @ ''News1'' @ [dquote] @
     '' group-title='' @ [dquote] @ ''News'' @ [dquote] @ '',News1''"

definition game_extinf :: string where
  "game_extinf = ''#EXTINF:-1 group-title='' @ [dquote] @ ''Sports'' @ [dquote] @ '',Game''"

definition example_text :: string where
  "example_text = ''#EXTM3U'' @ [newline] @ news_extinf @ [newline] @ ''http://x/1'' @ [newline] @
     ''#EXTINF:-1,Orphan'' @ [newline] @ game_extinf @ [newline] @ ''http://x/2''"

definition orphan_text :: string where
  "orphan_text = ''#EXTM3U'' @ [newline] @ news_extinf @ [newline] @ ''http://x/1'' @ [newline] @
     ''#EXTINF:-1,Orphan'' @ [newline] @ [newline] @ ''# note'' @ [newline] @
     game_extinf @ [newline] @ ''http://x/2''"

definition example_pairs :: "(string \<times> string) list" where
  "example_pairs = [(news_extinf, ''http://x/1''), (game_extinf, ''http://x/2'')]"

definition news_channel :: IPTVChannel where
  "news_channel = \<lparr> name = ''News1'', group = ''News'', url = ''http://x/1'', logo = None,
     epg_id = None, country = None, language = None, category = None \<rparr>"

definition game_channel :: IPTVChannel where
  "game_channel = \<lparr> name = ''Game'', group = ''Sports'', url = ''http://x/2'', logo = None,
     epg_id = None, country = None, language = None, category = None \<rparr>"

definition example_browser :: IPTVBrowser where
  "example_browser = \<lparr> playlist_url = Some ''http://x/list.m3u'',
     channels = [news_channel, game_channel], current_filter = None \<rparr>"

text \<open>A metadata line whose \<open>tvg-name\<close> is empty, and the channel parsed from it.\<close>

definition blank_extinf :: string where
  "blank_extinf = ''#EXTINF:-1 tvg-name='' @ [dquote, dquote] @ '',''"

definition blank_text :: string where
  "blank_text = ''#EXTM3U'' @ [newline] @ blank_extinf @ [newline] @ ''http://x/1''"

definition blank_channel :: IPTVChannel where
  "blank_channel = \<lparr> name = [], group = ''Ungrouped'', url = ''http://x/1'', logo = None,
     epg_id = None, country = None, language = None, category = None \<rparr>"

definition blank_browser :: IPTVBrowser where
  "blank_browser = \<lparr> playlist_url = Some ''http://x/list.m3u'',
     channels = [blank_channel], current_filter = None \<rparr>"

text \<open>A metadata line with two \<open>group-title\<close> attributes, the second one empty.\<close>

definition twice_extinf :: string where
  "twice_extinf = ''#EXTINF:-1 group-title='' @ [dquote] @ ''A'' @ [dquote] @
     '' group-title='' @ [dquote, dquote] @ '',x''"

definition empty_group_extinf :: string where
  "empty_group_extinf = ''#EXTINF:-1 group-title='' @ [dquote, dquote] @
     '' tvg-name='' @ [dquote, dquote] @ '',x''"

text \<open>
  A scorer that looks for its first argument inside the second: 100 when it stands there
  as it is, 0 otherwise.
\<close>

fun occurs_in :: "string \<Rightarrow> string \<Rightarrow> bool" where
  "occurs_in s [] = (s = [])"
| "occurs_in s (c # cs) = (startswith s (c # cs) \<or> occurs_in s cs)"

definition substring_scorer :: scorer where
  "substring_scorer s1 s2 = Some (if occurs_in s1 s2 then 100 else 0)"

text \<open>
  A metadata line whose \<open>tvg-name\<close> starts with a space, which the parser keeps, and the
  channel parsed from it.
\<close>

definition padded_extinf :: string where
  "padded_extinf = ''#EXTINF:-1 tvg-name='' @ [dquote] @ '' Game'' @ [dquote] @ '',x''"

definition padded_text :: string where
  "padded_text = ''#EXTM3U'' @ [newline] @ padded_extinf @ [newline] @ ''http://x/3''"

definition padded_channel :: IPTVChannel where
  "padded_channel = \<lparr> name = '' Game'', group = ''Ungrouped'', url = ''http://x/3'',
     logo = None, epg_id = None, country = None, language = None, category = None \<rparr>"

definition padded_browser :: IPTVBrowser where
  "padded_browser = \<lparr> playlist_url = Some ''http://x/list.m3u'',
     channels = [news_channel, padded_channel], current_filter = None \<rparr>"

text \<open>
  Stand-ins for the two library calls of \<^verbatim>\<open>fetch_playlist\<close>: a URL parser that finds
  a scheme and a host in every URL, and a server that answers every request with a page
  that is not a playlist.
\<close>

definition sample_urlparse :: "string \<Rightarrow> (string \<times> string) option" where
  "sample_urlparse u = Some (''http'', ''x'')"

definition sample_http_get :: "string \<Rightarrow> string option" where
  "sample_http_get u = Some (''  <html>#EXTM3U</html>'' @ [newline])"

section \<open>The attribute patterns find what the line holds\<close>

lemma quoted_value_None: "(quoted_value s = None) = (dquote \<notin> set s)"
  by (simp add: quoted_value_def)

lemma re_search_None_iff: "(re_search key s = None) = (\<not> has_attribute key s)"
proof (induction s)
  case Nil
  show ?case by simp
next
  case (Cons c cs)
  show ?case
  proof (cases "startswith key (c # cs) \<and> dquote \<in> set (drop (length key) (c # cs))")
    case True
    then obtain v where "quoted_value (drop (length key) (c # cs)) = Some v"
      using quoted_value_None [of "drop (length key) (c # cs)"]
      by (cases "quoted_value (drop (length key) (c # cs))") auto
    with True have "re_search key (c # cs) = Some v" by simp
    moreover from True have "has_attribute key (c # cs)" by simp
    ultimately show ?thesis by simp
  next
    case False
    then have "re_search key (c # cs) = re_search key cs"
      using quoted_value_None [of "drop (length key) (c # cs)"]
      by (cases "startswith key (c # cs)") simp_all
    moreover from False have "has_attribute key (c # cs) = has_attribute key cs"
      by auto
    ultimately show ?thesis using Cons.IH by simp
  qed
qed

text \<open>
  \<open>has_attribute\<close> says what it is meant to say: the line splits into a prefix, the key,
  a value, a double quote and a rest.
\<close>

lemma has_attribute_iff:
  "has_attribute key s = (\<exists>pre v post. s = pre @ key @ v @ dquote # post)"
proof
  show "has_attribute key s \<Longrightarrow> \<exists>pre v post. s = pre @ key @ v @ dquote # post"
  proof (induction s)
    case Nil
    then show ?case by simp
  next
    case (Cons c cs)
    show ?case
    proof (cases "startswith key (c # cs) \<and> dquote \<in> set (drop (length key) (c # cs))")
      case True
      then obtain v post where vp: "drop (length key) (c # cs) = v @ dquote # post"
        by (meson split_list)
      from True have "take (length key) (c # cs) = key" by (simp add: startswith_def)
      then have "c # cs = key @ drop (length key) (c # cs)"
        using append_take_drop_id [of "length key" "c # cs"] by simp
      with vp have "c # cs = [] @ key @ v @ dquote # post" by simp
      then show ?thesis by blast
    next
      case False
      with Cons.prems have "has_attribute key cs" by auto
      with Cons.IH obtain pre v post where "cs = pre @ key @ v @ dquote # post" by blast
      then have "c # cs = (c # pre) @ key @ v @ dquote # post" by simp
      then show ?thesis by blast
    qed
  qed
next
  assume "\<exists>pre v post. s = pre @ key @ v @ dquote # post"
  then obtain pre v post where s: "s = pre @ key @ v @ dquote # post" by blast
  have "has_attribute key (pre @ key @ v @ dquote # post)"
  proof (induction pre)
    case Nil
    obtain c cs where ccs: "key @ v @ dquote # post = c # cs"
      by (cases "key @ v @ dquote # post") auto
    have "startswith key (key @ v @ dquote # post)" by (simp add: startswith_def)
    moreover have "dquote \<in> set (drop (length key) (key @ v @ dquote # post))" by simp
    ultimately have "has_attribute key (c # cs)" unfolding ccs by simp
    then show ?case using ccs by simp
  next
    case (Cons p ps)
    then show ?case by simp
  qed
  with s show "has_attribute key s" by simp
qed

lemma takeWhile_quote:
  "dquote \<notin> set v \<Longrightarrow> takeWhile (\<lambda>c. c \<noteq> dquote) (v @ dquote # post) = v"
  by (induction v) auto

text \<open>
  The match is the leftmost one: with no \<open>key\<close> starting inside \<open>pre\<close>, the value found is
  the one right after \<open>pre\<close>.
\<close>

lemma re_search_leftmost:
  assumes "key \<noteq> []"
    and "dquote \<notin> set v"
    and "\<forall>j<length pre. \<not> startswith key (drop j (pre @ key @ v @ dquote # post))"
  shows "re_search key (pre @ key @ v @ dquote # post) = Some v"
  using assms(3)
proof (induction pre)
  case Nil
  from assms(1) obtain k ks where k: "key = k # ks" by (cases key) auto
  have sw: "startswith key (key @ v @ dquote # post)"
    by (simp add: startswith_def)
  have qv: "quoted_value (drop (length key) (key @ v @ dquote # post)) = Some v"
    using assms(2) by (simp add: quoted_value_def takeWhile_quote)
  have "re_search key ((k # ks) @ v @ dquote # post) = Some v"
    using sw qv unfolding k by simp
  then show ?case using k by simp
next
  case (Cons p ps)
  have "0 < length (p # ps)" by simp
  with Cons.prems have "\<not> startswith key (drop 0 ((p # ps) @ key @ v @ dquote # post))"
    by blast
  then have first: "\<not> startswith key (p # (ps @ key @ v @ dquote # post))" by simp
  have "\<forall>j<length ps. \<not> startswith key (drop j (ps @ key @ v @ dquote # post))"
  proof (intro allI impI)
    fix j assume "j < length ps"
    then have "Suc j < length (p # ps)" by simp
    with Cons.prems have "\<not> startswith key (drop (Suc j) ((p # ps) @ key @ v @ dquote # post))"
      by blast
    then show "\<not> startswith key (drop j (ps @ key @ v @ dquote # post))" by simp
  qed
  with Cons.IH have "re_search key (ps @ key @ v @ dquote # post) = Some v" by blast
  with first show ?case by simp
qed

lemma leftmost_empty_iff:
  "leftmost_empty key s =
     (\<exists>pre post. s = pre @ key @ dquote # post \<and>
        (\<forall>j<length pre. \<not> startswith key (drop j s)))"
proof (induction s)
  case Nil
  show ?case by simp
next
  case (Cons c cs)
  show ?case
  proof (cases "startswith key (c # cs)")
    case True
    have "startswith (key @ [dquote]) (c # cs) =
          (\<exists>pre post. c # cs = pre @ key @ dquote # post \<and>
             (\<forall>j<length pre. \<not> startswith key (drop j (c # cs))))"
    proof
      assume sw: "startswith (key @ [dquote]) (c # cs)"
      then have "take (Suc (length key)) (c # cs) = key @ [dquote]"
        by (simp add: startswith_def)
      then have "c # cs = (key @ [dquote]) @ drop (Suc (length key)) (c # cs)"
        using append_take_drop_id [of "Suc (length key)" "c # cs"] by simp
      then have "c # cs = [] @ key @ dquote # drop (Suc (length key)) (c # cs)" by simp
      moreover have "\<forall>j<length ([]::string). \<not> startswith key (drop j (c # cs))" by simp
      ultimately show "\<exists>pre post. c # cs = pre @ key @ dquote # post \<and>
             (\<forall>j<length pre. \<not> startswith key (drop j (c # cs)))" by blast
    next
      assume "\<exists>pre post. c # cs = pre @ key @ dquote # post \<and>
             (\<forall>j<length pre. \<not> startswith key (drop j (c # cs)))"
      then obtain pre post where eq: "c # cs = pre @ key @ dquote # post"
        and left: "\<forall>j<length pre. \<not> startswith key (drop j (c # cs))" by blast
      have "pre = []"
      proof (rule ccontr)
        assume "pre \<noteq> []"
        then have "0 < length pre" by simp
        with left have "\<not> startswith key (drop 0 (c # cs))" by blast
        with True show False by simp
      qed
      with eq have "c # cs = (key @ [dquote]) @ post" by simp
      then show "startswith (key @ [dquote]) (c # cs)"
        unfolding startswith_def by (metis append_eq_conv_conj)
    qed
    with True show ?thesis by simp
  next
    case False
    have "(\<exists>pre post. cs = pre @ key @ dquote # post \<and>
             (\<forall>j<length pre. \<not> startswith key (drop j cs))) =
          (\<exists>pre post. c # cs = pre @ key @ dquote # post \<and>
             (\<forall>j<length pre. \<not> startswith key (drop j (c # cs))))"
    proof
      assume "\<exists>pre post. cs = pre @ key @ dquote # post \<and>
             (\<forall>j<length pre. \<not> startswith key (drop j cs))"
      then obtain pre post where eq: "cs = pre @ key @ dquote # post"
        and left: "\<forall>j<length pre. \<not> startswith key (drop j cs)" by blast
      have "c # cs = (c # pre) @ key @ dquote # post" using eq by simp
      moreover have "\<forall>j<length (c # pre). \<not> startswith key (drop j (c # cs))"
      proof (intro allI impI)
        fix j assume j: "j < length (c # pre)"
        show "\<not> startswith key (drop j (c # cs))"
        proof (cases j)
          case 0
          with False show ?thesis by simp
        next
          case (Suc i)
          with j have "i < length pre" by simp
          with left Suc show ?thesis by simp
        qed
      qed
      ultimately show "\<exists>pre post. c # cs = pre @ key @ dquote # post \<and>
             (\<forall>j<length pre. \<not> startswith key (drop j (c # cs)))" by blast
    next
      assume "\<exists>pre post. c # cs = pre @ key @ dquote # post \<and>
             (\<forall>j<length pre. \<not> startswith key (drop j (c # cs)))"
      then obtain pre post where eq: "c # cs = pre @ key @ dquote # post"
        and left: "\<forall>j<length pre. \<not> startswith key (drop j (c # cs))" by blast
      have "pre \<noteq> []"
      proof
        assume "pre = []"
        with eq have "c # cs = key @ dquote # post" by simp
        then have "startswith key (c # cs)" by (simp add: startswith_def)
        with False show False by simp
      qed
      then obtain p ps where pre: "pre = p # ps" by (cases pre) auto
      with eq have eq': "cs = ps @ key @ dquote # post" by simp
      have "\<forall>j<length ps. \<not> startswith key (drop j cs)"
      proof (intro allI impI)
        fix j assume "j < length ps"
        then have "Suc j < length pre" using pre by simp
        with left have "\<not> startswith key (drop (Suc j) (c # cs))" by blast
        then show "\<not> startswith key (drop j cs)" by simp
      qed
      with eq' show "\<exists>pre post. cs = pre @ key @ dquote # post \<and>
             (\<forall>j<length pre. \<not> startswith key (drop j cs))" by blast
    qed
    with False Cons.IH show ?thesis by simp
  qed
qed

lemma leftmost_empty_search:
  assumes "key \<noteq> []" and "leftmost_empty key s"
  shows "re_search key s = Some []"
proof -
  from assms(2) obtain pre post where s: "s = pre @ key @ dquote # post"
    and left: "\<forall>j<length pre. \<not> startswith key (drop j s)"
    unfolding leftmost_empty_iff by blast
  have "\<forall>j<length pre. \<not> startswith key (drop j (pre @ key @ [] @ dquote # post))"
    using left s by simp
  then have "re_search key (pre @ key @ [] @ dquote # post) = Some []"
    using assms(1) by (intro re_search_leftmost) simp_all
  then show ?thesis unfolding s by simp
qed

section \<open>The emitted channel\<close>

lemma startswith_prefix:
  assumes "startswith (p @ q) s"
  shows "startswith p s"
proof -
  from assms have "take (length p + length q) s = p @ q" by (simp add: startswith_def)
  then have "take (length p) (take (length p + length q) s) = take (length p) (p @ q)"
    by simp
  then have "take (length p) s = p" by (simp add: min_def)
  then show ?thesis by (simp add: startswith_def)
qed

lemma startswith_hash: "startswith ''#EXTINF:'' s \<Longrightarrow> startswith ''#'' s"
  using startswith_prefix [of "''#''" "''EXTINF:''" s] by simp

lemma parse_line_emits:
  assumes "is_url_line raw"
  shows "parse_line (Some e, chans) raw = (None, chans @ [make_channel e (strip raw)])"
proof -
  from assms have ne: "strip raw \<noteq> []" and nh: "\<not> startswith ''#'' (strip raw)"
    by (simp_all add: is_url_line_def)
  from nh have "\<not> startswith ''#EXTINF:'' (strip raw)"
    using startswith_hash by blast
  with ne nh show ?thesis by (simp add: parse_line_def)
qed

lemma split_on_not_Nil: "split_on d s \<noteq> []"
  by (induction s) (auto split: list.splits)

lemma split_on_no_delim: "d \<notin> set s \<Longrightarrow> split_on d s = [s]"
  by (induction s) auto

lemma split_on_append: "split_on d (pre @ d # post) = split_on d pre @ split_on d post"
proof (induction pre)
  case Nil
  show ?case by simp
next
  case (Cons p ps)
  obtain f fs where "split_on d ps = f # fs"
    using split_on_not_Nil [of d ps] by (cases "split_on d ps") auto
  with Cons show ?case by simp
qed

lemma last_field_after_comma:
  assumes "comma \<notin> set post"
  shows "last_field (pre @ comma # post) = post"
proof -
  have "split_on comma (pre @ comma # post) = split_on comma pre @ [post]"
    using assms by (simp add: split_on_append split_on_no_delim)
  then show ?thesis by (simp add: last_field_def)
qed

lemma last_field_no_comma: "comma \<notin> set s \<Longrightarrow> last_field s = s"
  by (simp add: last_field_def split_on_no_delim)

text \<open>
  C8. When the pending metadata line has no \<open>group-title="..."\<close> attribute, the channel
  the loop appends at the next URL line has the group \<open>Ungrouped\<close>.
\<close>

theorem group_defaults_to_Ungrouped:
  assumes "\<not> has_attribute pat_group e" and "is_url_line raw"
  shows "\<exists>c. parse_line (Some e, chans) raw = (None, chans @ [c]) \<and> group c = ''Ungrouped''"
proof -
  from assms(1) have "re_search pat_group e = None"
    by (simp add: re_search_None_iff)
  then have "group (make_channel e (strip raw)) = ''Ungrouped''"
    by (simp add: make_channel_def)
  with parse_line_emits [OF assms(2)] show ?thesis by blast
qed

theorem group_defaults_to_Ungrouped_witness:
  "\<not> has_attribute pat_group ''#EXTINF:-1,Orphan'' \<and> is_url_line ''http://x/1'' \<and>
   (\<exists>c. parse_line (Some ''#EXTINF:-1,Orphan'', []) ''http://x/1'' = (None, [] @ [c]) \<and>
        group c = ''Ungrouped'')"
proof -
  have a: "\<not> has_attribute pat_group ''#EXTINF:-1,Orphan''" by code_simp
  have b: "is_url_line ''http://x/1''" by code_simp
  from group_defaults_to_Ungrouped [OF a b, of "[]"] a b show ?thesis by blast
qed

text \<open>
  C9. When the pending metadata line has no \<open>tvg-name="..."\<close> attribute, the name of the
  channel the loop appends at the next URL line is the text after the last comma of the
  metadata line, trimmed. A line without any comma gives the whole line, trimmed.
\<close>

theorem name_falls_back_to_last_comma:
  assumes "\<not> has_attribute pat_name e" and "is_url_line raw"
  shows "\<exists>c. parse_line (Some e, chans) raw = (None, chans @ [c]) \<and>
           (\<forall>pre post. e = pre @ comma # post \<and> comma \<notin> set post \<longrightarrow> name c = strip post) \<and>
           (comma \<notin> set e \<longrightarrow> name c = strip e)"
proof -
  from assms(1) have "re_search pat_name e = None"
    by (simp add: re_search_None_iff)
  then have nm: "name (make_channel e (strip raw)) = strip (last_field e)"
    by (simp add: make_channel_def)
  have "\<forall>pre post. e = pre @ comma # post \<and> comma \<notin> set post \<longrightarrow>
          name (make_channel e (strip raw)) = strip post"
    using nm last_field_after_comma by auto
  moreover have "comma \<notin> set e \<longrightarrow> name (make_channel e (strip raw)) = strip e"
    using nm last_field_no_comma by auto
  ultimately show ?thesis
    using parse_line_emits [OF assms(2)] by blast
qed

theorem name_falls_back_to_last_comma_witness:
  "\<not> has_attribute pat_name (''#EXTINF:-1'' @ comma # '' Game'') \<and>
   is_url_line ''http://x/2'' \<and> comma \<notin> set '' Game'' \<and>
   (\<exists>c. parse_line (Some (''#EXTINF:-1'' @ comma # '' Game''), []) ''http://x/2'' =
          (None, [] @ [c]) \<and> name c = ''Game'')"
proof -
  have a: "\<not> has_attribute pat_name (''#EXTINF:-1'' @ comma # '' Game'')" by code_simp
  have b: "is_url_line ''http://x/2''" by code_simp
  have c: "comma \<notin> set '' Game''" by code_simp
  have d: "strip '' Game'' = ''Game''" by code_simp
  from name_falls_back_to_last_comma [OF a b, of "[]"] c
  have "\<exists>c. parse_line (Some (''#EXTINF:-1'' @ comma # '' Game''), []) ''http://x/2'' =
          (None, [] @ [c]) \<and> name c = strip '' Game''"
    by blast
  with a b c d show ?thesis by simp
qed

text \<open>
  C10, as the code has it. When the leftmost \<open>group-title="\<close> of the pending metadata line
  is followed at once by the closing quote, the appended channel has the empty group, not
  \<open>Ungrouped\<close>; when the leftmost \<open>tvg-name="\<close> is, it has the empty name.
\<close>

theorem empty_attribute_is_kept:
  assumes "is_url_line raw"
  shows "\<exists>c. parse_line (Some e, chans) raw = (None, chans @ [c]) \<and>
           (leftmost_empty pat_group e \<longrightarrow> group c = [] \<and> group c \<noteq> ''Ungrouped'') \<and>
           (leftmost_empty pat_name e \<longrightarrow> name c = [])"
proof -
  have "leftmost_empty pat_group e \<longrightarrow> group (make_channel e (strip raw)) = []"
    using leftmost_empty_search [of pat_group e]
    by (auto simp: make_channel_def pat_group_def)
  moreover have "leftmost_empty pat_name e \<longrightarrow> name (make_channel e (strip raw)) = []"
    using leftmost_empty_search [of pat_name e]
    by (auto simp: make_channel_def pat_name_def)
  ultimately show ?thesis
    using parse_line_emits [OF assms] by auto
qed

theorem empty_attribute_is_kept_witness:
  "is_url_line ''http://x/1'' \<and> leftmost_empty pat_group empty_group_extinf \<and>
   leftmost_empty pat_name empty_group_extinf \<and>
   (\<exists>c. parse_line (Some empty_group_extinf, []) ''http://x/1'' = (None, [] @ [c]) \<and>
        group c = [] \<and> group c \<noteq> ''Ungrouped'' \<and> name c = [])"
proof -
  have a: "is_url_line ''http://x/1''" by code_simp
  have b: "leftmost_empty pat_group empty_group_extinf" by code_simp
  have c: "leftmost_empty pat_name empty_group_extinf" by code_simp
  from empty_attribute_is_kept [OF a, of empty_group_extinf "[]"] a b c
  show ?thesis by blast
qed

text \<open>
  With an earlier \<open>group-title\<close> on the line, the empty one is not the one found: the line
  holds \<open>group-title=""\<close> and the group is \<open>A\<close>.
\<close>

theorem empty_attribute_counterexample:
  "twice_extinf = (''#EXTINF:-1 group-title='' @ [dquote] @ ''A'' @ [dquote] @ '' '') @
     (pat_group @ [dquote]) @ '',x'' \<and>
   parse_line (Some twice_extinf, []) ''http://x/1'' =
     (None, [\<lparr> name = ''x'', group = ''A'', url = ''http://x/1'', logo = None,
               epg_id = None, country = None, language = None, category = None \<rparr>])"
  by code_simp

section \<open>Search\<close>

lemma search_loop_filter:
  "search_loop partial_ratio query chans results =
     results @ filter (passes partial_ratio query) chans"
proof (induction chans arbitrary: results)
  case Nil
  show ?case by simp
next
  case (Cons channel rest)
  show ?case
  proof (cases "partial_ratio query (lower (name channel))")
    case None
    then show ?thesis by (simp add: Cons.IH passes_def)
  next
    case (Some ratio)
    then show ?thesis by (simp add: Cons.IH passes_def)
  qed
qed

lemma strip_blank:
  assumes "\<forall>c\<in>set s. isspace c"
  shows "strip s = []"
proof -
  from assms have d: "dropWhile isspace s = []" by (simp add: dropWhile_eq_Nil_conv)
  show ?thesis unfolding strip_def d by simp
qed

lemma set_strip: "set (strip s) \<subseteq> set s"
proof
  fix x assume "x \<in> set (strip s)"
  then have "x \<in> set (dropWhile isspace (rev (dropWhile isspace s)))"
    by (simp add: strip_def)
  then have "x \<in> set (rev (dropWhile isspace s))" by (rule set_dropWhileD)
  then have "x \<in> set (dropWhile isspace s)" by simp
  then show "x \<in> set s" by (rule set_dropWhileD)
qed

lemma lower_char_idem: "lower_char (lower_char c) = lower_char c"
proof -
  define n where "n = (of_char c :: nat)"
  show ?thesis
  proof (cases "(65 \<le> n \<and> n \<le> 90) \<or> (192 \<le> n \<and> n \<le> 222 \<and> n \<noteq> 215)")
    case True
    then have lc: "lower_char c = char_of (n + 32)"
      by (auto simp: lower_char_def Let_def n_def)
    from True have "n + 32 < 256" by auto
    then have m: "(of_char (char_of (n + 32)) :: nat) = n + 32" by simp
    have "\<not> ((65 \<le> n + 32 \<and> n + 32 \<le> 90) \<or> (192 \<le> n + 32 \<and> n + 32 \<le> 222 \<and> n + 32 \<noteq> 215))"
      using True by auto
    then have "lower_char (char_of (n + 32)) = char_of (n + 32)"
      unfolding lower_char_def Let_def m by simp
    with lc show ?thesis by simp
  next
    case False
    then have "lower_char c = c" by (auto simp: lower_char_def Let_def n_def)
    then show ?thesis by simp
  qed
qed

lemma lower_strip_lower: "lower (strip (lower s)) = strip (lower s)"
proof -
  have "\<And>x. x \<in> set (strip (lower s)) \<Longrightarrow> lower_char x = x"
  proof -
    fix x assume "x \<in> set (strip (lower s))"
    then have "x \<in> set (lower s)" using set_strip by blast
    then obtain y where "x = lower_char y" by (auto simp: lower_def)
    then show "lower_char x = x" by (simp add: lower_char_idem)
  qed
  then have "map lower_char (strip (lower s)) = strip (lower s)" by (rule map_idI)
  then show ?thesis by (simp add: lower_def)
qed

lemma lower_Nil_iff: "(lower s = []) = (s = [])"
  by (simp add: lower_def)

text \<open>
  C3, as the code has it. A query that is blank after trimming gives the empty list;
  any other query gives the channels that pass the threshold on the trimmed, lowercased
  query, as a filter of the channel list, in the order of the list.
\<close>

theorem search_is_stable_filter:
  "search_channels partial_ratio self query0 =
     (if lower (strip query0) = [] then []
      else filter (passes partial_ratio (lower (strip query0))) (channels self))"
  by (simp add: search_channels_def Let_def search_loop_filter)

text \<open>
  On the empty query the filter by score is not what the search returns: a channel with
  an empty name scores 100 against the empty query and is not in the result.
\<close>

theorem search_is_stable_filter_counterexample:
  "search_channels equal_scorer blank_browser [] \<noteq>
     filter (passes equal_scorer (lower [])) (channels blank_browser)"
  by code_simp

text \<open>
  C7. A query that is empty or all whitespace gives the empty list, whatever the channels.
\<close>

theorem blank_query_finds_nothing:
  assumes "\<forall>c\<in>set query0. isspace c"
  shows "search_channels partial_ratio self query0 = []"
  using strip_blank [OF assms] by (simp add: search_channels_def lower_def)

theorem blank_query_finds_nothing_witness:
  "isspace (CHR '' '') \<and> isspace (CHR 0x09) \<and>
   search_channels equal_scorer example_browser [CHR '' '', CHR 0x09, CHR '' ''] = []"
proof -
  have a: "isspace (CHR '' '')" by code_simp
  have b: "isspace (CHR 0x09)" by code_simp
  from a b have "\<forall>c\<in>set [CHR '' '', CHR 0x09, CHR '' '']. isspace c" by simp
  from blank_query_finds_nothing [OF this] a b show ?thesis by blast
qed

text \<open>The trimmed string stands inside the string it was trimmed from.\<close>

lemma strip_inside: "\<exists>pre post. s = pre @ strip s @ post"
proof -
  define d where "d = dropWhile isspace s"
  have "rev (takeWhile isspace (rev d) @ dropWhile isspace (rev d)) = d"
    by (simp only: takeWhile_dropWhile_id rev_rev_ident)
  then have "rev (dropWhile isspace (rev d)) @ rev (takeWhile isspace (rev d)) = d"
    by (simp only: rev_append)
  then have "d = strip s @ rev (takeWhile isspace (rev d))"
    unfolding strip_def d_def by (rule sym)
  moreover have "s = takeWhile isspace s @ d" by (simp add: d_def)
  ultimately have "s = takeWhile isspace s @ strip s @ rev (takeWhile isspace (rev d))"
    by simp
  then show ?thesis by blast
qed

lemma occurs_in_append: "occurs_in s (pre @ s @ post)"
proof (induction pre)
  case Nil
  show ?case
  proof (cases "s @ post")
    case Nil
    then show ?thesis by simp
  next
    case (Cons c cs)
    have "startswith s (s @ post)" by (simp add: startswith_def)
    then show ?thesis using Cons by simp
  qed
next
  case (Cons p ps)
  then show ?case by simp
qed

lemma padded_text_parses: "parse_playlist padded_text = [padded_channel]"
  by code_simp

text \<open>
  C6, as the code has it. A channel of the stored list whose name is not blank is found
  by the query equal to its lowercased name, for every scorer that rates a non-empty
  string above 80 against any string that holds it. The trimmed query stands inside the
  lowercased name, which is all the search needs.
\<close>

theorem own_name_finds_channel:
  assumes "\<forall>s pre post. s \<noteq> [] \<longrightarrow> (\<exists>r. partial_ratio s (pre @ s @ post) = Some r \<and> 80 < r)"
    and "channel \<in> set (channels self)"
    and "strip (lower (name channel)) \<noteq> []"
  shows "channel \<in> set (search_channels partial_ratio self (lower (name channel)))"
proof -
  define q where "q = strip (lower (name channel))"
  have lq: "lower (strip (lower (name channel))) = q"
    unfolding q_def by (rule lower_strip_lower)
  from assms(3) have ne: "q \<noteq> []" by (simp add: q_def)
  obtain pre post where "lower (name channel) = pre @ q @ post"
    unfolding q_def using strip_inside by blast
  with assms(1) ne obtain r where "partial_ratio q (lower (name channel)) = Some r" and "80 < r"
    by metis
  then have "passes partial_ratio q channel" by (simp add: passes_def)
  moreover have "search_channels partial_ratio self (lower (name channel)) =
      filter (passes partial_ratio q) (channels self)"
    using ne by (simp add: search_channels_def Let_def search_loop_filter lq)
  ultimately show ?thesis using assms(2) by simp
qed

theorem own_name_finds_channel_witness:
  "padded_channel \<in> set (channels padded_browser) \<and>
   lower (name padded_channel) = '' game'' \<and>
   strip (lower (name padded_channel)) = ''game'' \<and>
   padded_channel \<in> set (search_channels substring_scorer padded_browser '' game'')"
proof -
  have a: "\<forall>s pre post. s \<noteq> [] \<longrightarrow>
             (\<exists>r. substring_scorer s (pre @ s @ post) = Some r \<and> 80 < r)"
    by (simp add: substring_scorer_def occurs_in_append)
  have b: "padded_channel \<in> set (channels padded_browser)" by code_simp
  have c: "lower (name padded_channel) = '' game''" by code_simp
  have d: "strip (lower (name padded_channel)) = ''game''" by code_simp
  from d have e: "strip (lower (name padded_channel)) \<noteq> []" by simp
  from own_name_finds_channel [OF a b e] have
    "padded_channel \<in> set (search_channels substring_scorer padded_browser
        (lower (name padded_channel)))" .
  with b c d show ?thesis by simp
qed

text \<open>
  A channel with an empty name is in the list, as the parser leaves it there, and the
  query equal to its lowercased name does not find it, with a scorer that finds every
  string inside itself.
\<close>

theorem own_name_finds_channel_counterexample:
  "channels blank_browser = parse_playlist blank_text \<and>
   blank_channel \<in> set (channels blank_browser) \<and>
   substring_scorer (lower (name blank_channel)) (lower (name blank_channel)) = Some 100 \<and>
   blank_channel \<notin> set (search_channels substring_scorer blank_browser (lower (name blank_channel)))"
  by code_simp

section \<open>Fetch\<close>

text \<open>
  C4. When the response text, trimmed, does not start with \<open>#EXTM3U\<close>, the call raises
  \<open>PlaylistParsingError\<close> with the message about the missing header, and the channel list
  and the filter stay as they were. Only \<open>playlist_url\<close> has been assigned by then.
\<close>

theorem fetch_without_header_fails:
  assumes "validate_url urlparse u"
    and "http_get u = Some content"
    and "\<not> startswith ''#EXTM3U'' (strip content)"
  shows "fetch_playlist urlparse http_get self u =
           (Inl (PlaylistParsingError ''Invalid M3U format: Missing #EXTM3U header''),
            self\<lparr>playlist_url := Some u\<rparr>) \<and>
         channels (snd (fetch_playlist urlparse http_get self u)) = channels self \<and>
         current_filter (snd (fetch_playlist urlparse http_get self u)) = current_filter self"
  using assms by (simp add: fetch_playlist_def Let_def)

theorem fetch_without_header_fails_witness:
  "validate_url sample_urlparse ''http://x/a'' \<and>
   sample_http_get ''http://x/a'' = Some (''  <html>#EXTM3U</html>'' @ [newline]) \<and>
   \<not> startswith ''#EXTM3U'' (strip (''  <html>#EXTM3U</html>'' @ [newline])) \<and>
   fst (fetch_playlist sample_urlparse sample_http_get example_browser ''http://x/a'') =
     Inl (PlaylistParsingError ''Invalid M3U format: Missing #EXTM3U header'') \<and>
   channels (snd (fetch_playlist sample_urlparse sample_http_get example_browser ''http://x/a''))
     = [news_channel, game_channel]"
proof -
  have a: "validate_url sample_urlparse ''http://x/a''" by code_simp
  have b: "sample_http_get ''http://x/a'' = Some (''  <html>#EXTM3U</html>'' @ [newline])"
    by (simp add: sample_http_get_def)
  have c: "\<not> startswith ''#EXTM3U'' (strip (''  <html>#EXTM3U</html>'' @ [newline]))"
    by code_simp
  have d: "channels example_browser = [news_channel, game_channel]"
    by (simp add: example_browser_def)
  note fetch_without_header_fails
    [of sample_urlparse "''http://x/a''" sample_http_get
        "''  <html>#EXTM3U</html>'' @ [newline]" example_browser, OF a b c]
  with a b c d show ?thesis by simp
qed

section \<open>The parsing loop\<close>

lemma isspace_newline: "isspace newline"
  by (simp add: isspace_def newline_def)

lemma strip_snoc_space:
  assumes "isspace c"
  shows "strip (s @ [c]) = strip s"
proof (cases "\<forall>x\<in>set s. isspace x")
  case True
  with assms have "\<forall>x\<in>set (s @ [c]). isspace x" by simp
  then have "strip (s @ [c]) = []" by (rule strip_blank)
  moreover from True have "strip s = []" by (rule strip_blank)
  ultimately show ?thesis by simp
next
  case False
  then obtain x where "x \<in> set s" and "\<not> isspace x" by blast
  then have "dropWhile isspace (s @ [c]) = dropWhile isspace s @ [c]"
    by (rule dropWhile_append1)
  with assms show ?thesis by (simp add: strip_def)
qed

lemma strip_line_feed: "strip (s @ [newline]) = strip s"
  by (rule strip_snoc_space) (rule isspace_newline)

lemma parse_line_cong: "strip a = strip b \<Longrightarrow> parse_line st a = parse_line st b"
  by (simp add: parse_line_def)

lemma parse_line_extinf:
  assumes "is_extinf e"
  shows "parse_line st e = (Some (strip e), snd st)"
proof -
  from assms have sw: "startswith ''#EXTINF:'' (strip e)" by (simp add: is_extinf_def)
  then have "strip e \<noteq> []" by (auto simp: startswith_def)
  with sw show ?thesis by (simp add: parse_line_def)
qed

lemma parse_line_skipped:
  assumes "is_skipped l"
  shows "parse_line st l = st"
proof (cases "strip l = []")
  case True
  then show ?thesis by (simp add: parse_line_def)
next
  case False
  with assms have "startswith ''#'' (strip l)" and "\<not> startswith ''#EXTINF:'' (strip l)"
    by (simp_all add: is_skipped_def)
  with False show ?thesis
    by (cases "fst st") (simp_all add: parse_line_def)
qed

lemma foldl_skipped: "\<forall>l\<in>set mid. is_skipped l \<Longrightarrow> foldl parse_line st mid = st"
  by (induction mid arbitrary: st) (simp_all add: parse_line_skipped)

lemma readlines_from_line:
  "newline \<notin> set l \<Longrightarrow> readlines_from cur (l @ rest) = readlines_from (cur @ l) rest"
  by (induction l arbitrary: cur) auto

text \<open>
  The line that is being read when the rest of the text starts: it comes out first, with
  or without its line feed.
\<close>

lemma readlines_from_head:
  assumes "u \<noteq> []" and "t = [] \<or> t = [newline]"
  shows "\<exists>h. readlines_from u (concat (map (\<lambda>p. newline # fst p @ newline # snd p) ps) @ t) =
              h # tl (readlines_from u
                    (concat (map (\<lambda>p. newline # fst p @ newline # snd p) ps) @ t)) \<and>
             strip h = strip u"
proof (cases ps)
  case Nil
  from assms(2) show ?thesis
  proof
    assume "t = []"
    with Nil assms(1) show ?thesis by simp
  next
    assume "t = [newline]"
    with Nil show ?thesis by (simp add: strip_line_feed)
  qed
next
  case (Cons q qs)
  then show ?thesis by (simp add: strip_line_feed)
qed

lemma parse_pairs:
  assumes "\<forall>p\<in>set pairs. well_formed_pair p" and "t = [] \<or> t = [newline]"
  shows "foldl parse_line (None, cs)
           (tl (readlines_from cur
                  (concat (map (\<lambda>p. newline # fst p @ newline # snd p) pairs) @ t))) =
         (None, cs @ map channel_of_pair pairs)"
  using assms(1)
proof (induction pairs arbitrary: cur cs)
  case Nil
  from assms(2) show ?case by auto
next
  case (Cons p ps)
  define m where "m = fst p"
  define u where "u = snd p"
  define body where "body = concat (map (\<lambda>p. newline # fst p @ newline # snd p) ps) @ t"
  from Cons.prems have wf: "well_formed_pair p" and wfs: "\<forall>p\<in>set ps. well_formed_pair p"
    by simp_all
  from wf have nm: "newline \<notin> set m" and nu: "newline \<notin> set u"
    and em: "is_extinf m" and uu: "is_url_line u"
    by (simp_all add: well_formed_pair_def m_def u_def)
  from uu have une: "u \<noteq> []" by (auto simp: is_url_line_def strip_def)
  from readlines_from_head [OF une assms(2), of ps]
  obtain h where h: "readlines_from u body = h # tl (readlines_from u body)"
    and sh: "strip h = strip u"
    unfolding body_def by blast
  have "readlines_from cur (newline # m @ newline # u @ body) =
        (cur @ [newline]) # readlines_from [] (m @ newline # u @ body)"
    by simp
  also have "readlines_from [] (m @ newline # u @ body) = readlines_from m (newline # u @ body)"
    using nm by (simp add: readlines_from_line)
  also have "\<dots> = (m @ [newline]) # readlines_from [] (u @ body)" by simp
  also have "readlines_from [] (u @ body) = readlines_from u body"
    using nu by (simp add: readlines_from_line)
  finally have lines: "tl (readlines_from cur (newline # m @ newline # u @ body)) =
      (m @ [newline]) # h # tl (readlines_from u body)"
    using h by simp
  have step1: "parse_line (None, cs) (m @ [newline]) = (Some (strip m), cs)"
  proof -
    have "parse_line (None, cs) (m @ [newline]) = parse_line (None, cs) m"
      by (rule parse_line_cong) (rule strip_line_feed)
    with em show ?thesis by (simp add: parse_line_extinf)
  qed
  have step2: "parse_line (Some (strip m), cs) h = (None, cs @ [channel_of_pair p])"
  proof -
    have "parse_line (Some (strip m), cs) h = parse_line (Some (strip m), cs) u"
      by (rule parse_line_cong) (rule sh)
    with uu show ?thesis
      by (simp add: parse_line_emits channel_of_pair_def m_def u_def)
  qed
  have "foldl parse_line (None, cs) (tl (readlines_from cur (newline # m @ newline # u @ body))) =
        foldl parse_line (None, cs @ [channel_of_pair p]) (tl (readlines_from u body))"
    unfolding lines by (simp add: step1 step2)
  also have "\<dots> = (None, (cs @ [channel_of_pair p]) @ map channel_of_pair ps)"
    unfolding body_def by (rule Cons.IH) (rule wfs)
  finally show ?case by (simp add: m_def u_def body_def)
qed

text \<open>
  C1. The text of the header and N well-formed pairs, with or without a line feed after
  the last line, parses to the N channels of the pairs, in the order of the pairs.
\<close>

theorem pairs_parse_in_order:
  assumes "\<forall>p\<in>set pairs. well_formed_pair p"
  shows "parse_playlist (playlist_text pairs) = map channel_of_pair pairs \<and>
         parse_playlist (playlist_text pairs @ [newline]) = map channel_of_pair pairs \<and>
         length (parse_playlist (playlist_text pairs)) = length pairs \<and>
         length (parse_playlist (playlist_text pairs @ [newline])) = length pairs"
proof -
  have hdr: "newline \<notin> set ''#EXTM3U''" by (simp add: newline_def)
  have "parse_playlist (playlist_text pairs @ t) = map channel_of_pair pairs"
    if t: "t = [] \<or> t = [newline]" for t
  proof -
    have "readlines (playlist_text pairs @ t) =
          readlines_from ''#EXTM3U''
            (concat (map (\<lambda>p. newline # fst p @ newline # snd p) pairs) @ t)"
      using readlines_from_line [OF hdr, of "[]"]
      by (simp add: readlines_def playlist_text_def)
    then show ?thesis
      using parse_pairs [OF assms t, of "[]" "''#EXTM3U''"]
      by (simp add: parse_playlist_def parse_lines_def)
  qed
  from this [of "[]"] this [of "[newline]"] show ?thesis by simp
qed

theorem pairs_parse_in_order_witness:
  "example_pairs = [(news_extinf, ''http://x/1''), (game_extinf, ''http://x/2'')] \<and>
   well_formed_pair (news_extinf, ''http://x/1'') \<and>
   well_formed_pair (game_extinf, ''http://x/2'') \<and>
   parse_playlist (playlist_text example_pairs) = [news_channel, game_channel] \<and>
   length (parse_playlist (playlist_text example_pairs)) = length example_pairs"
proof -
  have w1: "well_formed_pair (news_extinf, ''http://x/1'')" by code_simp
  have w2: "well_formed_pair (game_extinf, ''http://x/2'')" by code_simp
  from w1 w2 have a: "\<forall>p\<in>set example_pairs. well_formed_pair p"
    by (simp add: example_pairs_def)
  have b: "map channel_of_pair example_pairs = [news_channel, game_channel]" by code_simp
  note t = pairs_parse_in_order [OF a]
  from t b have "parse_playlist (playlist_text example_pairs) = [news_channel, game_channel]"
    by simp
  moreover from t have "length (parse_playlist (playlist_text example_pairs)) =
      length example_pairs"
    by blast
  ultimately show ?thesis using w1 w2 example_pairs_def by blast
qed

text \<open>
  C2. A metadata line followed only by blank lines and other comments, up to the next
  metadata line or the end of the input, adds no channel: the text parses to what it
  parses to without that line. While it is pending no channel is appended, and the next
  metadata line takes its place.
\<close>

theorem orphan_extinf_adds_nothing:
  assumes "is_extinf e"
    and "\<forall>l\<in>set mid. is_skipped l"
    and "rest = [] \<or> is_extinf (hd rest)"
    and "tl (readlines content) = pre @ e # mid @ rest"
  shows "parse_playlist content = parse_lines (pre @ mid @ rest) \<and>
         foldl parse_line st (e # mid) = (Some (strip e), snd st) \<and>
         (is_extinf e' \<longrightarrow> foldl parse_line st (e # mid @ [e']) = (Some (strip e'), snd st))"
proof -
  have pending: "foldl parse_line s (e # mid) = (Some (strip e), snd s)" for s
    using assms(1,2) by (simp add: parse_line_extinf foldl_skipped)
  have same: "snd (foldl parse_line s (e # mid @ rest)) = snd (foldl parse_line s (mid @ rest))"
    for s
  proof -
    have l: "foldl parse_line s (e # mid @ rest) = foldl parse_line (Some (strip e), snd s) rest"
      using pending [of s] by simp
    have r: "foldl parse_line s (mid @ rest) = foldl parse_line s rest"
      using assms(2) by (simp add: foldl_skipped)
    from assms(3) show ?thesis
    proof
      assume "rest = []"
      with l r show ?thesis by simp
    next
      assume ex: "is_extinf (hd rest)"
      show ?thesis
      proof (cases rest)
        case Nil
        with l r show ?thesis by simp
      next
        case (Cons x xs)
        with ex have "is_extinf x" by simp
        then have "parse_line (Some (strip e), snd s) x = parse_line s x"
          by (simp add: parse_line_extinf)
        with l r Cons show ?thesis by simp
      qed
    qed
  qed
  have "parse_playlist content = parse_lines (pre @ mid @ rest)"
    using same [of "foldl parse_line (None, []) pre"]
    by (simp add: parse_playlist_def parse_lines_def assms(4))
  moreover have "is_extinf e' \<longrightarrow>
      foldl parse_line st (e # mid @ [e']) = (Some (strip e'), snd st)"
    using pending [of st] by (simp add: parse_line_extinf)
  ultimately show ?thesis using pending [of st] by blast
qed

theorem orphan_extinf_adds_nothing_witness:
  "is_extinf (''#EXTINF:-1,Orphan'' @ [newline]) \<and>
   is_skipped [newline] \<and> is_skipped (''# note'' @ [newline]) \<and>
   is_extinf (hd [game_extinf @ [newline], ''http://x/2'']) \<and>
   tl (readlines orphan_text) =
     [news_extinf @ [newline], ''http://x/1'' @ [newline]] @
     (''#EXTINF:-1,Orphan'' @ [newline]) # [[newline], ''# note'' @ [newline]] @
     [game_extinf @ [newline], ''http://x/2''] \<and>
   parse_playlist orphan_text = [news_channel, game_channel]"
proof -
  have a: "is_extinf (''#EXTINF:-1,Orphan'' @ [newline])" by code_simp
  have b1: "is_skipped [newline]" by code_simp
  have b2: "is_skipped (''# note'' @ [newline])" by code_simp
  from b1 b2 have b: "\<forall>l\<in>set [[newline], ''# note'' @ [newline]]. is_skipped l" by simp
  have c: "is_extinf (hd [game_extinf @ [newline], ''http://x/2''])" by code_simp
  have c': "[game_extinf @ [newline], ''http://x/2''] = [] \<or>
            is_extinf (hd [game_extinf @ [newline], ''http://x/2''])"
    using c by simp
  have d: "tl (readlines orphan_text) =
     [news_extinf @ [newline], ''http://x/1'' @ [newline]] @
     (''#EXTINF:-1,Orphan'' @ [newline]) # [[newline], ''# note'' @ [newline]] @
     [game_extinf @ [newline], ''http://x/2'']" by code_simp
  have e: "parse_lines ([news_extinf @ [newline], ''http://x/1'' @ [newline]] @
     [[newline], ''# note'' @ [newline]] @ [game_extinf @ [newline], ''http://x/2'']) =
     [news_channel, game_channel]" by code_simp
  from orphan_extinf_adds_nothing [OF a b c' d] have
    "parse_playlist orphan_text =
       parse_lines ([news_extinf @ [newline], ''http://x/1'' @ [newline]] @
         [[newline], ''# note'' @ [newline]] @ [game_extinf @ [newline], ''http://x/2''])"
    by blast
  with e have "parse_playlist orphan_text = [news_channel, game_channel]" by simp
  with a b1 b2 c d show ?thesis by blast
qed

section \<open>The screens\<close>

lemma browse_channels_rejects:
  assumes "lower choice \<noteq> ''b''"
  shows "(py_int choice = None \<longrightarrow>
            browse_channels_turn chans choice = Report ''Invalid input'') \<and>
         (\<forall>n. py_int choice = Some n \<and> (n < 1 \<or> int (length chans) < n) \<longrightarrow>
            browse_channels_turn chans choice = Report ''Invalid channel number'')"
  using assms by (auto simp: browse_channels_turn_def Let_def)

lemma browse_groups_rejects:
  assumes "lower choice \<noteq> ''b''"
  shows "(py_int choice = None \<longrightarrow>
            browse_groups_turn groups choice = Report ''Invalid group number'') \<and>
         (\<forall>n. py_int choice = Some n \<and> (n \<le> - int (length groups) \<or> int (length groups) < n) \<longrightarrow>
            browse_groups_turn groups choice = Report ''Invalid group number'')"
  using assms by (auto simp: browse_groups_turn_def py_index_def Let_def)

lemma py_int_padding:
  "py_int [CHR 0x1C, CHR ''7''] = None \<and> py_int [CHR 0xA0, CHR ''7'', CHR 0x0A] = Some 7 \<and>
   py_int '' -1_0 '' = Some (- 10) \<and> py_int ''1__0'' = None \<and> py_int ''+'' = None"
  by code_simp

lemma browse_channels_zero:
  "browse_channels_turn (channels example_browser) ''0'' = Report ''Invalid channel number''"
  by code_simp

text \<open>
  C5 asks that an index outside 1..length is reported on both screens. The channel screen
  does so. On the group screen the answer 0 is the index -1, which Python reads from the
  end: with the groups News and Sports, the answer 0 opens Sports and -1 opens News.
\<close>

theorem browse_groups_zero_opens_last_group:
  "map fst (group_channels example_browser) = [''News'', ''Sports''] \<and>
   browse_groups_turn (group_channels example_browser) ''0'' = Enter ''Sports'' [game_channel] \<and>
   browse_groups_turn (group_channels example_browser) ''-1'' = Enter ''News'' [news_channel] \<and>
   browse_groups_turn (group_channels example_browser) ''3'' = Report ''Invalid group number''"
  by code_simp

end
